theory Spec2Isabelle
  imports Main "HOL-Library.FSet" "HOL-Library.Product_Lexorder"
begin

section \<open>The knowledge base of the Minesweeper agent (minesweeper.py)\<close>

text \<open>
  The embedding follows the classes \<^verbatim>\<open>Sentence\<close> and \<^verbatim>\<open>MinesweeperAI\<close> of
  \<^verbatim>\<open>src/minesweeper.py\<close>. A Python \<^verbatim>\<open>set\<close> is a finite set (\<open>fset\<close>), a Python
  \<^verbatim>\<open>int\<close> is an \<open>int\<close>, the list \<^verbatim>\<open>self.knowledge\<close> is a list. Methods that mutate
  \<^verbatim>\<open>self\<close> take the object and return the updated one. A raised exception is the left
  summand of the result; where the object has been mutated before the exception is raised,
  the left summand also carries the object as the exception leaves it.

  Two things that the interpreter decides are arguments of the model. The recursion limit:
  \<^verbatim>\<open>apply_knowledge\<close> calls itself once per pass, and the interpreter raises
  \<^verbatim>\<open>RecursionError\<close> when the calls are nested too deep (1000 frames unless the limit has
  been changed, less the frames in use). The version: \<^verbatim>\<open>random.sample\<close> takes a set before
  Python 3.11 and raises \<^verbatim>\<open>TypeError\<close> for one from Python 3.11 on.
\<close>

subsection \<open>Data\<close>

type_synonym cell = "int \<times> int"

record Sentence =
  cells :: "cell fset"
  count :: int

record MinesweeperAI =
  height :: int
  width :: int
  moves_made :: "cell fset"
  mines :: "cell fset"
  safes :: "cell fset"
  knowledge :: "Sentence list"

datatype error = KeyError | ValueError | RecursionError | TypeError

datatype python = Python_before_3_11 | Python_3_11_or_later

text \<open>\<^verbatim>\<open>Sentence.__init__\<close> copies the cells it is given into a set of its own.\<close>

definition Sentence_init :: "cell fset \<Rightarrow> int \<Rightarrow> Sentence" where
  "Sentence_init cs n = \<lparr>cells = cs, count = n\<rparr>"

text \<open>\<^verbatim>\<open>MinesweeperAI.__init__\<close>.\<close>

definition MinesweeperAI_init :: "int \<Rightarrow> int \<Rightarrow> MinesweeperAI" where
  "MinesweeperAI_init h w =
     \<lparr>height = h, width = w, moves_made = {||}, mines = {||}, safes = {||}, knowledge = []\<rparr>"

subsection \<open>Sentence\<close>

text \<open>
  \<^verbatim>\<open>Sentence.__eq__\<close> compares the cells and the count: it is the equality of the record.
  \<^verbatim>\<open>known_mines\<close> and \<^verbatim>\<open>known_safes\<close> return the cell set or \<^verbatim>\<open>None\<close>.
\<close>

definition known_mines :: "Sentence \<Rightarrow> cell fset option" where
  "known_mines sen = (if int (fcard (cells sen)) = count sen then Some (cells sen) else None)"

definition known_safes :: "Sentence \<Rightarrow> cell fset option" where
  "known_safes sen = (if count sen = 0 then Some (cells sen) else None)"

definition Sentence_mark_mine :: "Sentence \<Rightarrow> cell \<Rightarrow> Sentence" where
  "Sentence_mark_mine sen c =
     (if c |\<in>| cells sen then sen\<lparr>cells := cells sen |-| {|c|}, count := count sen - 1\<rparr> else sen)"

definition Sentence_mark_safe :: "Sentence \<Rightarrow> cell \<Rightarrow> Sentence" where
  "Sentence_mark_safe sen c =
     (if c |\<in>| cells sen then sen\<lparr>cells := cells sen |-| {|c|}\<rparr> else sen)"

subsection \<open>MinesweeperAI: marking cells\<close>

text \<open>The loop over \<^verbatim>\<open>self.knowledge\<close> updates every sentence in place.\<close>

definition mark_mine :: "MinesweeperAI \<Rightarrow> cell \<Rightarrow> MinesweeperAI" where
  "mark_mine s c =
     s\<lparr>mines := finsert c (mines s),
       knowledge := map (\<lambda>sen. if c |\<in>| cells sen then Sentence_mark_mine sen c else sen)
                        (knowledge s)\<rparr>"

definition mark_safe :: "MinesweeperAI \<Rightarrow> cell \<Rightarrow> MinesweeperAI" where
  "mark_safe s c =
     s\<lparr>safes := finsert c (safes s),
       knowledge := map (\<lambda>sen. if c |\<in>| cells sen then Sentence_mark_safe sen c else sen)
                        (knowledge s)\<rparr>"

subsection \<open>Neighbouring cells\<close>

text \<open>
  The two nested \<^verbatim>\<open>range\<close> loops collect the cells of the 3 by 3 block around the cell
  that lie on the board; \<^verbatim>\<open>set.remove\<close> raises \<^verbatim>\<open>KeyError\<close> when the cell itself is
  not among them. \<^verbatim>\<open>range(a - 1, a + 2)\<close> is the list \<open>[a - 1..a + 1]\<close>.
\<close>

definition get_neighbouring_cells :: "MinesweeperAI \<Rightarrow> cell \<Rightarrow> error + cell fset" where
  "get_neighbouring_cells s c =
     (let neighbouring_cells =
        fold (\<lambda>row acc.
                fold (\<lambda>col acc.
                        if 0 \<le> row \<and> row < height s \<and> 0 \<le> col \<and> col < width s
                        then finsert (row, col) acc else acc)
                     [snd c - 1..snd c + 1] acc)
             [fst c - 1..fst c + 1] {||}
      in if c |\<in>| neighbouring_cells then Inr (neighbouring_cells |-| {|c|})
         else Inl KeyError)"

definition get_hidden_neighbouring_cells :: "MinesweeperAI \<Rightarrow> cell \<Rightarrow> error + cell fset" where
  "get_hidden_neighbouring_cells s c =
     (case get_neighbouring_cells s c of
        Inl e \<Rightarrow> Inl e
      | Inr neighbouring_cells \<Rightarrow> Inr (neighbouring_cells |-| moves_made s))"

subsection \<open>The closure: \<^verbatim>\<open>apply_knowledge\<close>\<close>

text \<open>
  \<^verbatim>\<open>list.remove(x)\<close> deletes the first element equal to \<open>x\<close> and raises
  \<^verbatim>\<open>ValueError\<close> when there is none.
\<close>

fun list_remove :: "'a list \<Rightarrow> 'a \<Rightarrow> 'a list option" where
  "list_remove [] x = None"
| "list_remove (y # ys) x =
     (if y = x then Some ys else map_option ((#) y) (list_remove ys x))"

text \<open>
  \<^verbatim>\<open>for mine in mine_cells: self.mark_mine(mine)\<close> runs over a set of the snapshot, which
  the marking does not touch. Python fixes no order for the iteration over a set; the model
  takes the cells in increasing order, and \<open>mark_mines_any_order\<close> below shows that every
  other order gives the same store.
\<close>

definition mark_mines :: "cell fset \<Rightarrow> MinesweeperAI \<Rightarrow> MinesweeperAI" where
  "mark_mines M s = fold (\<lambda>c s. mark_mine s c) (sorted_list_of_fset M) s"

definition mark_safes :: "cell fset \<Rightarrow> MinesweeperAI \<Rightarrow> MinesweeperAI" where
  "mark_safes S s = fold (\<lambda>c s. mark_safe s c) (sorted_list_of_fset S) s"

text \<open>
  One pass of \<^verbatim>\<open>apply_knowledge\<close>: the \<^verbatim>\<open>for\<close> loop over the deep copy of the
  knowledge list. The first argument is what is left of the copy, the second the
  \<^verbatim>\<open>repeat_flag\<close>, the third the live object. A sentence of the copy with no cells is
  removed from the live list and ends the loop (\<^verbatim>\<open>break\<close>).
\<close>

fun apply_pass ::
  "Sentence list \<Rightarrow> bool \<Rightarrow> MinesweeperAI \<Rightarrow> (error \<times> MinesweeperAI) + (bool \<times> MinesweeperAI)"
where
  "apply_pass [] repeat_flag s = Inr (repeat_flag, s)"
| "apply_pass (sentence # rest) repeat_flag s =
     (let mine_cells = known_mines sentence;
          safe_cells = known_safes sentence
      in if fcard (cells sentence) = 0 then
           (case list_remove (knowledge s) sentence of
              None \<Rightarrow> Inl (ValueError, s)
            | Some k \<Rightarrow> Inr (True, s\<lparr>knowledge := k\<rparr>))
         else
           (let (flag1, s1) = (case mine_cells of
                                 None \<Rightarrow> (repeat_flag, s)
                               | Some M \<Rightarrow> (True, mark_mines M s));
                (flag2, s2) = (case safe_cells of
                                 None \<Rightarrow> (flag1, s1)
                               | Some S \<Rightarrow> (True, mark_safes S s1))
            in apply_pass rest flag2 s2))"

subsection \<open>Resolution: \<^verbatim>\<open>generate_new_knowledge\<close>\<close>

text \<open>
  The two nested loops over \<^verbatim>\<open>self.knowledge\<close>, appending to \<^verbatim>\<open>new_sentences\<close>.
  \<^verbatim>\<open>sentence_1 != sentence_2\<close> is the negation of \<^verbatim>\<open>__eq__\<close>.
\<close>

fun resolve_inner :: "Sentence \<Rightarrow> Sentence list \<Rightarrow> Sentence list \<Rightarrow> Sentence list" where
  "resolve_inner sentence_1 [] new_sentences = new_sentences"
| "resolve_inner sentence_1 (sentence_2 # rest) new_sentences =
     resolve_inner sentence_1 rest
       (if sentence_1 \<noteq> sentence_2 \<and> cells sentence_1 |\<subseteq>| cells sentence_2 then
          (let new_cells = cells sentence_2 |-| cells sentence_1;
               new_count = count sentence_2 - count sentence_1
           in if fcard new_cells > 0 then new_sentences @ [Sentence_init new_cells new_count]
              else new_sentences)
        else new_sentences)"

fun resolve_outer :: "Sentence list \<Rightarrow> Sentence list \<Rightarrow> Sentence list \<Rightarrow> Sentence list" where
  "resolve_outer [] k new_sentences = new_sentences"
| "resolve_outer (sentence_1 # rest) k new_sentences =
     resolve_outer rest k (resolve_inner sentence_1 k new_sentences)"

text \<open>The method returns the new list; the object is returned as the method leaves it.\<close>

definition generate_new_knowledge :: "MinesweeperAI \<Rightarrow> Sentence list \<times> MinesweeperAI" where
  "generate_new_knowledge s = (resolve_outer (knowledge s) (knowledge s) [], s)"

subsection \<open>Move selection\<close>

text \<open>
  \<^verbatim>\<open>make_safe_move\<close> pops an element of a fresh set. Which element comes out is not fixed
  by the program: the last argument stands for that choice and is read as an index into an
  enumeration of the set. The method does not change the object.
\<close>

definition make_safe_move :: "MinesweeperAI \<Rightarrow> nat \<Rightarrow> cell option" where
  "make_safe_move s pick =
     (let safe_cells = safes s |-| moves_made s
      in if fcard safe_cells > 0
         then Some (sorted_list_of_fset safe_cells ! (pick mod fcard safe_cells))
         else None)"

text \<open>
  \<^verbatim>\<open>random.sample(population, 1)\<close> of the standard library, called with a set. From
  Python 3.11 on it raises \<^verbatim>\<open>TypeError\<close> for a population that is not a sequence, before
  it looks at anything else. Before 3.11 it turns the set into a tuple, raises
  \<^verbatim>\<open>ValueError\<close> when the sample is larger than the population, and otherwise returns
  the list of the one element at the index it draws; the last argument stands for the draw.
\<close>

definition random_sample :: "python \<Rightarrow> cell fset \<Rightarrow> nat \<Rightarrow> error + cell list" where
  "random_sample py population rnd =
     (case py of
        Python_3_11_or_later \<Rightarrow> Inl TypeError
      | Python_before_3_11 \<Rightarrow>
          if fcard population < 1 then Inl ValueError
          else Inr [sorted_list_of_fset population ! (rnd mod fcard population)])"

text \<open>
  \<^verbatim>\<open>make_random_move\<close>: \<^verbatim>\<open>range(n)\<close> is the list \<open>[0..n - 1]\<close>; the result of the
  sample is indexed with \<^verbatim>\<open>[0]\<close>. The method does not change the object.
\<close>

definition make_random_move :: "python \<Rightarrow> MinesweeperAI \<Rightarrow> nat \<Rightarrow> error + cell option" where
  "make_random_move py s rnd =
     (let known_cells = {||};
          known_cells = known_cells |\<union>| safes s;
          known_cells = known_cells |\<union>| mines s;
          known_cells = known_cells |\<union>| moves_made s;
          unknown_cells =
            fold (\<lambda>row acc. fold (\<lambda>col acc. finsert (row, col) acc) [0..width s - 1] acc)
                 [0..height s - 1] {||};
          unknown_cells = unknown_cells |-| known_cells
      in if fcard unknown_cells > 0
         then (case random_sample py unknown_cells rnd of
                 Inl e \<Rightarrow> Inl e
               | Inr sample \<Rightarrow> Inr (Some (sample ! 0)))
         else Inr None)"

subsection \<open>Auxiliary notions for the proofs\<close>

text \<open>
  The net effect on one sentence of marking a whole set of cells as mines, or as safe;
  the effect on a sentence of the live list of what a sentence of the copy triggers; the
  size of a knowledge list that the closure decreases; and the relation between a sentence
  of the live list and the sentence of the copy it was copied from.
\<close>

definition strike_mines :: "cell fset \<Rightarrow> Sentence \<Rightarrow> Sentence" where
  "strike_mines M sen =
     sen\<lparr>cells := cells sen |-| M, count := count sen - int (fcard (cells sen |\<inter>| M))\<rparr>"

definition strike_safes :: "cell fset \<Rightarrow> Sentence \<Rightarrow> Sentence" where
  "strike_safes S sen = sen\<lparr>cells := cells sen |-| S\<rparr>"

definition weight :: "Sentence list \<Rightarrow> nat" where
  "weight K = sum_list (map (\<lambda>sen. Suc (fcard (cells sen))) K)"

definition stale :: "Sentence \<Rightarrow> Sentence \<Rightarrow> bool" where
  "stale k sen \<longleftrightarrow> cells k |\<subseteq>| cells sen \<and> (cells k = cells sen \<longrightarrow> k = sen)"

definition settle :: "Sentence \<Rightarrow> Sentence \<Rightarrow> Sentence" where
  "settle sen =
     (case known_safes sen of None \<Rightarrow> id | Some S \<Rightarrow> strike_safes S) \<circ>
     (case known_mines sen of None \<Rightarrow> id | Some M \<Rightarrow> strike_mines M)"

definition fires :: "Sentence \<Rightarrow> bool" where
  "fires sen \<longleftrightarrow> known_mines sen \<noteq> None \<or> known_safes sen \<noteq> None"

definition pass_step :: "Sentence \<Rightarrow> MinesweeperAI \<Rightarrow> MinesweeperAI" where
  "pass_step sen s =
     s\<lparr>mines := (case known_mines sen of None \<Rightarrow> {||} | Some M \<Rightarrow> M) |\<union>| mines s,
       safes := (case known_safes sen of None \<Rightarrow> {||} | Some S \<Rightarrow> S) |\<union>| safes s,
       knowledge := map (settle sen) (knowledge s)\<rparr>"

text \<open>
  The board as the specification describes it: the cells within the bounds, the cells
  adjacent to a cell, and the subset rule of the resolution step read over the positions of
  the knowledge list.
\<close>

definition on_board :: "MinesweeperAI \<Rightarrow> cell \<Rightarrow> bool" where
  "on_board s c \<longleftrightarrow> 0 \<le> fst c \<and> fst c < height s \<and> 0 \<le> snd c \<and> snd c < width s"

definition board_cells :: "MinesweeperAI \<Rightarrow> cell fset" where
  "board_cells s = fset_of_list (List.product [0..height s - 1] [0..width s - 1])"

definition adjacent :: "cell \<Rightarrow> cell \<Rightarrow> bool" where
  "adjacent c d \<longleftrightarrow> \<bar>fst d - fst c\<bar> \<le> 1 \<and> \<bar>snd d - snd c\<bar> \<le> 1 \<and> d \<noteq> c"

definition board_neighbours :: "MinesweeperAI \<Rightarrow> cell \<Rightarrow> cell fset" where
  "board_neighbours s c = ffilter (adjacent c) (board_cells s)"

definition candidate :: "Sentence \<Rightarrow> Sentence \<Rightarrow> Sentence" where
  "candidate A B = \<lparr>cells = cells B |-| cells A, count = count B - count A\<rparr>"

definition resolution_rule :: "Sentence list \<Rightarrow> Sentence list" where
  "resolution_rule K =
     [candidate (K ! i) (K ! j).
        i \<leftarrow> [0..<length K], j \<leftarrow> [0..<length K],
        i \<noteq> j, cells (K ! i) |\<subseteq>| cells (K ! j), cells (K ! j) |-| cells (K ! i) \<noteq> {||}]"

definition derive :: "Sentence \<Rightarrow> Sentence \<Rightarrow> Sentence list" where
  "derive A B =
     (if A \<noteq> B \<and> cells A |\<subseteq>| cells B \<and> fcard (cells B |-| cells A) > 0
      then [candidate A B] else [])"

text \<open>The cells that the sentences of a list mention, and those of them that the store
  already holds as safe or as a mine.\<close>

fun mentioned :: "Sentence list \<Rightarrow> cell fset" where
  "mentioned [] = {||}"
| "mentioned (k # K) = cells k |\<union>| mentioned K"

definition known_mentioned :: "MinesweeperAI \<Rightarrow> cell fset" where
  "known_mentioned s = mentioned (knowledge s) |\<inter>| (safes s |\<union>| mines s)"

subsection \<open>The marking loops in closed form\<close>

lemma strike_mines_empty [simp]: "strike_mines {||} sen = sen"
  by (simp add: strike_mines_def)

lemma strike_safes_empty [simp]: "strike_safes {||} sen = sen"
  by (simp add: strike_safes_def)

lemma fcard_inter_finsert:
  "c |\<notin>| M \<Longrightarrow> fcard (A |\<inter>| finsert c M) = (if c |\<in>| A then Suc (fcard (A |\<inter>| M)) else fcard (A |\<inter>| M))"
proof -
  assume c: "c |\<notin>| M"
  show ?thesis
  proof (cases "c |\<in>| A")
    case True
    then have "A |\<inter>| finsert c M = finsert c (A |\<inter>| M)" by auto
    moreover have "c |\<notin>| A |\<inter>| M" using c by simp
    ultimately show ?thesis using True by (simp add: fcard_finsert_disjoint)
  next
    case False
    then have "A |\<inter>| finsert c M = A |\<inter>| M" by auto
    with False show ?thesis by simp
  qed
qed

lemma strike_mines_finsert:
  "c |\<notin>| M \<Longrightarrow>
   strike_mines (finsert c M) sen =
     strike_mines M (if c |\<in>| cells sen then Sentence_mark_mine sen c else sen)"
proof -
  assume c: "c |\<notin>| M"
  have 1: "cells sen |-| finsert c M = cells sen |-| {|c|} |-| M" by auto
  have 2: "(cells sen |-| {|c|}) |\<inter>| M = cells sen |\<inter>| M" using c by auto
  show ?thesis
    by (simp add: strike_mines_def Sentence_mark_mine_def fcard_inter_finsert [OF c] 1 2)
qed

lemma strike_safes_finsert:
  "strike_safes (finsert c S) sen =
     strike_safes S (if c |\<in>| cells sen then Sentence_mark_safe sen c else sen)"
proof -
  have 1: "cells sen |-| finsert c S = cells sen |-| {|c|} |-| S" by auto
  have 2: "c |\<notin>| cells sen \<Longrightarrow> cells sen |-| finsert c S = cells sen |-| S" by auto
  show ?thesis
    by (simp add: strike_safes_def Sentence_mark_safe_def 1 2)
qed

lemma fold_mark_mine:
  "distinct xs \<Longrightarrow>
   fold (\<lambda>c s. mark_mine s c) xs s =
     s\<lparr>mines := fset_of_list xs |\<union>| mines s,
       knowledge := map (strike_mines (fset_of_list xs)) (knowledge s)\<rparr>"
proof (induction xs arbitrary: s)
  case Nil
  then show ?case by (simp add: map_idI)
next
  case (Cons x xs)
  then have x: "x |\<notin>| fset_of_list xs" by (simp add: fset_of_list_elem)
  have "finsert x (fset_of_list xs) = fset_of_list xs |\<union>| {|x|}" by auto
  with Cons show ?case
    by (simp add: mark_mine_def strike_mines_finsert [OF x] comp_def)
qed

lemma fold_mark_safe:
  "fold (\<lambda>c s. mark_safe s c) xs s =
     s\<lparr>safes := fset_of_list xs |\<union>| safes s,
       knowledge := map (strike_safes (fset_of_list xs)) (knowledge s)\<rparr>"
proof (induction xs arbitrary: s)
  case Nil
  then show ?case by (simp add: map_idI)
next
  case (Cons x xs)
  have "finsert x (fset_of_list xs) = fset_of_list xs |\<union>| {|x|}" by auto
  with Cons show ?case
    by (simp add: mark_safe_def strike_safes_finsert comp_def)
qed

lemma distinct_sorted_list_of_fset [simp]: "distinct (sorted_list_of_fset M)"
  by (simp add: sorted_list_of_fset.rep_eq)

lemma mark_mines_eq:
  "mark_mines M s = s\<lparr>mines := M |\<union>| mines s, knowledge := map (strike_mines M) (knowledge s)\<rparr>"
  by (simp add: mark_mines_def fold_mark_mine)

lemma mark_safes_eq:
  "mark_safes S s = s\<lparr>safes := S |\<union>| safes s, knowledge := map (strike_safes S) (knowledge s)\<rparr>"
  by (simp add: mark_safes_def fold_mark_safe)

text \<open>The order in which the cells of the set are visited does not matter.\<close>

lemma mark_mines_any_order:
  "distinct xs \<Longrightarrow> fset_of_list xs = M \<Longrightarrow> fold (\<lambda>c s. mark_mine s c) xs s = mark_mines M s"
  by (simp add: fold_mark_mine mark_mines_eq)

lemma mark_safes_any_order:
  "fset_of_list xs = S \<Longrightarrow> fold (\<lambda>c s. mark_safe s c) xs s = mark_safes S s"
  by (simp add: fold_mark_safe mark_safes_eq)

subsection \<open>One pass of the closure\<close>

lemma fcard_pos: "A \<noteq> {||} \<Longrightarrow> 0 < fcard A"
  by (metis fcard_0_eq gr0I)

lemma weight_simps [simp]:
  "weight [] = 0"
  "weight (k # K) = Suc (fcard (cells k)) + weight K"
  "weight (K @ K') = weight K + weight K'"
  by (simp_all add: weight_def)

lemma apply_pass_Cons_nonempty:
  "cells sen \<noteq> {||} \<Longrightarrow>
   apply_pass (sen # rest) flag s = apply_pass rest (flag \<or> fires sen) (pass_step sen s)"
  by (cases "known_mines sen"; cases "known_safes sen")
     (simp_all add: fires_def pass_step_def settle_def mark_mines_eq mark_safes_eq map_idI)

lemma apply_pass_Cons_empty:
  "cells sen = {||} \<Longrightarrow>
   apply_pass (sen # rest) flag s =
     (case list_remove (knowledge s) sen of
        None \<Rightarrow> Inl (ValueError, s)
      | Some k \<Rightarrow> Inr (True, s\<lparr>knowledge := k\<rparr>))"
  by simp

declare apply_pass.simps(2) [simp del]

lemma stale_refl [simp]: "stale k k"
  by (simp add: stale_def)

lemma cells_settle: "cells (settle sen k) |\<subseteq>| cells k"
  by (auto simp: settle_def strike_mines_def strike_safes_def split: option.splits)

lemma cells_settle_fires:
  "fires sen \<Longrightarrow> cells (settle sen k) = cells k |-| cells sen"
  by (auto simp: fires_def settle_def strike_mines_def strike_safes_def known_mines_def known_safes_def
           split: option.splits if_splits)

lemma cells_settle_not_fires: "\<not> fires sen \<Longrightarrow> settle sen k = k"
  by (auto simp: fires_def settle_def split: option.splits)

lemma settle_same_cells: "cells (settle sen k) = cells k \<Longrightarrow> settle sen k = k"
proof -
  assume a: "cells (settle sen k) = cells k"
  have 1: "\<And>M. cells k |-| M = cells k \<Longrightarrow> cells k |\<inter>| M = {||}" by auto
  have 2: "\<And>M S. cells k |-| M |-| S = cells k \<Longrightarrow> cells k |\<inter>| M = {||}" by auto
  from a show ?thesis
    by (auto simp: settle_def strike_mines_def strike_safes_def dest: 1 2 split: option.splits)
qed

lemma stale_settle: "stale k x \<Longrightarrow> stale (settle sen k) x"
  unfolding stale_def
  using cells_settle [of sen k] settle_same_cells [of sen k] by auto

lemma weight_settle: "weight (map (settle sen) K) \<le> weight K"
  by (induction K) (auto simp: add_le_mono fcard_mono cells_settle)

lemma weight_stale: "list_all2 stale K K' \<Longrightarrow> weight K \<le> weight K'"
  by (induction rule: list_all2_induct) (auto simp: stale_def add_le_mono fcard_mono)

lemma list_remove_weight:
  "x \<in> set K \<Longrightarrow> \<exists>K'. list_remove K x = Some K' \<and> weight K = Suc (fcard (cells x)) + weight K'"
  by (induction K) auto

lemma apply_pass_inv:
  "knowledge s = Kpre @ Krest \<Longrightarrow> list_all2 stale Krest rest \<Longrightarrow>
   \<exists>flag' s'. apply_pass rest flag s = Inr (flag', s') \<and> (flag \<longrightarrow> flag') \<and>
      weight (knowledge s') \<le> weight Kpre + weight rest \<and>
      (flag' \<and> \<not> flag \<longrightarrow> weight (knowledge s') < weight Kpre + weight rest)"
proof (induction rest arbitrary: flag s Kpre Krest)
  case Nil
  then show ?case by simp
next
  case (Cons sen rest)
  from Cons.prems(2) obtain k Krest' where
    Krest: "Krest = k # Krest'" and k: "stale k sen" and rest: "list_all2 stale Krest' rest"
    by (auto simp: list_all2_Cons2)
  show ?case
  proof (cases "cells sen = {||}")
    case True
    with k have "k = sen" by (auto simp: stale_def)
    with Cons.prems(1) Krest have "sen \<in> set (knowledge s)" by simp
    from list_remove_weight [OF this] obtain K' where
      K': "list_remove (knowledge s) sen = Some K'"
      and w: "weight (knowledge s) = Suc (fcard (cells sen)) + weight K'" by blast
    have "weight (knowledge s) \<le> weight Kpre + weight (sen # rest)"
      using Cons.prems weight_stale [OF Cons.prems(2)] by simp
    with w K' True show ?thesis
      by (auto simp: apply_pass_Cons_empty)
  next
    case False
    let ?s2 = "pass_step sen s"
    have ks2: "knowledge ?s2 = (map (settle sen) Kpre @ [settle sen k]) @ map (settle sen) Krest'"
      using Cons.prems(1) Krest by (simp add: pass_step_def)
    have rest2: "list_all2 stale (map (settle sen) Krest') rest"
      using rest by (simp add: list_all2_map1 stale_settle list_all2_mono)
    from Cons.IH [OF ks2 rest2, of "flag \<or> fires sen"] obtain flag' s' where
      run: "apply_pass rest (flag \<or> fires sen) ?s2 = Inr (flag', s')"
      and mono: "flag \<or> fires sen \<longrightarrow> flag'"
      and le: "weight (knowledge s') \<le> weight (map (settle sen) Kpre @ [settle sen k]) + weight rest"
      and lt: "flag' \<and> \<not> (flag \<or> fires sen) \<longrightarrow>
               weight (knowledge s') < weight (map (settle sen) Kpre @ [settle sen k]) + weight rest"
      by blast
    have pre: "weight (map (settle sen) Kpre) \<le> weight Kpre" by (rule weight_settle)
    have "cells (settle sen k) |\<subseteq>| cells sen"
      using k cells_settle [of sen k] by (auto simp: stale_def)
    then have kle: "fcard (cells (settle sen k)) \<le> fcard (cells sen)" by (rule fcard_mono)
    have klt: "fcard (cells (settle sen k)) < fcard (cells sen)" if "fires sen"
    proof -
      have "cells (settle sen k) = {||}"
        using cells_settle_fires [OF that, of k] k by (auto simp: stale_def)
      with False show ?thesis by (simp add: fcard_fempty fcard_pos)
    qed
    have eq: "apply_pass (sen # rest) flag s = Inr (flag', s')"
      using run apply_pass_Cons_nonempty [OF False, of rest flag s] by simp
    have "flag \<longrightarrow> flag'" using mono by simp
    moreover have "weight (knowledge s') \<le> weight Kpre + weight (sen # rest)"
      using le pre kle by simp
    moreover have "flag' \<and> \<not> flag \<longrightarrow> weight (knowledge s') < weight Kpre + weight (sen # rest)"
    proof (cases "fires sen")
      case True
      then show ?thesis using le pre klt by simp
    next
      case False
      then show ?thesis using lt pre kle by auto
    qed
    ultimately show ?thesis using eq by blast
  qed
qed

subsection \<open>\<^verbatim>\<open>apply_knowledge\<close>: recursion until a pass sets no flag\<close>

text \<open>
  The method calls itself while a pass has set \<^verbatim>\<open>repeat_flag\<close>: the passes are nested
  calls. The first argument is the number of nested activations of \<^verbatim>\<open>apply_knowledge\<close>
  that the interpreter still admits when the method is called. A pass needs its deepest
  frames for \<^verbatim>\<open>copy.deepcopy\<close>, at its start and before it mutates anything, so a pass
  either does not begin or runs to its end: when the limit is reached the method ends in
  \<^verbatim>\<open>RecursionError\<close> with the object as the last pass left it.
\<close>

fun apply_knowledge :: "nat \<Rightarrow> MinesweeperAI \<Rightarrow> (error \<times> MinesweeperAI) + MinesweeperAI" where
  "apply_knowledge 0 s = Inl (RecursionError, s)"
| "apply_knowledge (Suc depth) s =
     (case apply_pass (knowledge s) False s of
        Inl e \<Rightarrow> Inl e
      | Inr (repeat_flag, s') \<Rightarrow> if repeat_flag then apply_knowledge depth s' else Inr s')"

text \<open>
  \<^verbatim>\<open>add_knowledge\<close>, with the depth left for the closure it calls. The \<^verbatim>\<open>KeyError\<close> of
  \<^verbatim>\<open>get_neighbouring_cells\<close> leaves the method after the cell has been added to
  \<^verbatim>\<open>moves_made\<close> and marked safe; an exception of the closure leaves it before the
  resolution.
\<close>

definition add_knowledge ::
  "nat \<Rightarrow> MinesweeperAI \<Rightarrow> cell \<Rightarrow> int \<Rightarrow> (error \<times> MinesweeperAI) + MinesweeperAI" where
  "add_knowledge depth s c n =
     (let s1 = s\<lparr>moves_made := finsert c (moves_made s)\<rparr>;
          s2 = mark_safe s1 c
      in case get_hidden_neighbouring_cells s2 c of
           Inl e \<Rightarrow> Inl (e, s2)
         | Inr hidden \<Rightarrow>
             (let s3 = (if fcard hidden > 0
                        then s2\<lparr>knowledge := knowledge s2 @ [Sentence_init hidden n]\<rparr>
                        else s2)
              in case apply_knowledge depth s3 of
                   Inl e \<Rightarrow> Inl e
                 | Inr s4 \<Rightarrow>
                     (let (new_knowledge, s5) = generate_new_knowledge s4
                      in Inr (s5\<lparr>knowledge := knowledge s5 @ new_knowledge\<rparr>))))"

subsection \<open>Runs against a board\<close>

text \<open>
  A board is given by the set \<open>T\<close> of its mines. A sentence holds on the board when its
  count is the number of its cells that are mines. A store is sound for the board when its
  known mines are mines, its safe cells and its moves are not, and its sentences hold. The
  stores of a truthful run are those reached from a new agent by \<^verbatim>\<open>add_knowledge\<close> for
  a cell that is not a mine with the number of mines among its neighbours on the board, by
  \<^verbatim>\<open>mark_mine\<close> for a mine and by \<^verbatim>\<open>mark_safe\<close> for a cell that is not a mine; the
  move queries do not change the store. An observation counts whatever depth the
  interpreter had left for it, and also when it ended in an exception of the closure: the
  object is then as the exception left it.
\<close>

definition holds :: "cell fset \<Rightarrow> Sentence \<Rightarrow> bool" where
  "holds T sen \<longleftrightarrow> count sen = int (fcard (cells sen |\<inter>| T))"

definition sound :: "cell fset \<Rightarrow> MinesweeperAI \<Rightarrow> bool" where
  "sound T s \<longleftrightarrow>
     mines s |\<subseteq>| T \<and> safes s |\<inter>| T = {||} \<and> moves_made s |\<inter>| T = {||} \<and>
     list_all (holds T) (knowledge s)"

inductive reachable :: "cell fset \<Rightarrow> MinesweeperAI \<Rightarrow> bool" for T :: "cell fset" where
  start: "reachable T (MinesweeperAI_init h w)"
| observe: "reachable T s \<Longrightarrow> c |\<notin>| T \<Longrightarrow> get_neighbouring_cells s c = Inr nb \<Longrightarrow>
            add_knowledge depth s c (int (fcard (nb |\<inter>| T))) = Inr s' \<Longrightarrow> reachable T s'"
| observe_raised:
    "reachable T s \<Longrightarrow> c |\<notin>| T \<Longrightarrow> get_neighbouring_cells s c = Inr nb \<Longrightarrow>
     add_knowledge depth s c (int (fcard (nb |\<inter>| T))) = Inl (e, s') \<Longrightarrow> reachable T s'"
| flag_mine: "reachable T s \<Longrightarrow> c |\<in>| T \<Longrightarrow> reachable T (mark_mine s c)"
| flag_safe: "reachable T s \<Longrightarrow> c |\<notin>| T \<Longrightarrow> reachable T (mark_safe s c)"

subsection \<open>The closure: what it returns, how deep it goes, how it can fail\<close>

lemma apply_pass_start:
  "\<exists>flag' s'. apply_pass (knowledge s) False s = Inr (flag', s') \<and>
      weight (knowledge s') \<le> weight (knowledge s) \<and>
      (flag' \<longrightarrow> weight (knowledge s') < weight (knowledge s))"
proof -
  have "list_all2 stale (knowledge s) (knowledge s)"
    by (simp add: list_all2_refl)
  from apply_pass_inv [of s "[]" "knowledge s" "knowledge s" False, OF _ this]
  show ?thesis by auto
qed

lemma apply_pass_flag_mono:
  "apply_pass rest flag s = Inr (flag', s') \<Longrightarrow> flag \<Longrightarrow> flag'"
proof (induction rest arbitrary: flag s)
  case Nil
  then show ?case by simp
next
  case (Cons sen rest)
  show ?case
  proof (cases "cells sen = {||}")
    case True
    with Cons.prems show ?thesis
      by (auto simp: apply_pass_Cons_empty split: option.splits)
  next
    case False
    with Cons.prems have "apply_pass rest (flag \<or> fires sen) (pass_step sen s) = Inr (flag', s')"
      by (simp add: apply_pass_Cons_nonempty)
    from Cons.IH [OF this] Cons.prems(2) show ?thesis by simp
  qed
qed

lemma pass_step_not_fires: "\<not> fires sen \<Longrightarrow> pass_step sen s = s"
  by (auto simp: fires_def pass_step_def settle_def map_idI)

lemma apply_pass_quiet:
  "apply_pass rest False s = Inr (False, s') \<Longrightarrow>
   s' = s \<and> (\<forall>sen \<in> set rest. cells sen \<noteq> {||} \<and> \<not> fires sen)"
proof (induction rest)
  case Nil
  then show ?case by simp
next
  case (Cons sen rest)
  show ?case
  proof (cases "cells sen = {||}")
    case True
    with Cons.prems show ?thesis
      by (auto simp: apply_pass_Cons_empty split: option.splits)
  next
    case False
    with Cons.prems have run: "apply_pass rest (fires sen) (pass_step sen s) = Inr (False, s')"
      by (simp add: apply_pass_Cons_nonempty)
    have nf: "\<not> fires sen"
      using apply_pass_flag_mono [OF run] by auto
    with run have "apply_pass rest False s = Inr (False, s')"
      by (simp add: pass_step_not_fires)
    from Cons.IH [OF this] False nf show ?thesis by simp
  qed
qed

lemma apply_pass_quiet_conv:
  "\<forall>sen \<in> set rest. cells sen \<noteq> {||} \<and> \<not> fires sen \<Longrightarrow> apply_pass rest flag s = Inr (flag, s)"
  by (induction rest) (simp_all add: apply_pass_Cons_nonempty pass_step_not_fires)

lemma apply_knowledge_returns:
  "weight (knowledge s) < depth \<Longrightarrow>
   \<exists>s'. apply_knowledge depth s = Inr s' \<and> apply_pass (knowledge s') False s' = Inr (False, s')"
proof (induction depth arbitrary: s)
  case 0
  then show ?case by simp
next
  case (Suc depth)
  from apply_pass_start [of s] obtain flag' s1 where
    run: "apply_pass (knowledge s) False s = Inr (flag', s1)"
    and le: "weight (knowledge s1) \<le> weight (knowledge s)"
    and lt: "flag' \<longrightarrow> weight (knowledge s1) < weight (knowledge s)" by blast
  show ?case
  proof (cases flag')
    case True
    with lt Suc.prems have "weight (knowledge s1) < depth" by simp
    from Suc.IH [OF this] run True show ?thesis by simp
  next
    case False
    with run apply_pass_quiet [of "knowledge s" s s1] have "s1 = s" by simp
    with run False show ?thesis by simp
  qed
qed

lemma apply_knowledge_closed:
  "apply_knowledge depth s = Inr s' \<Longrightarrow> apply_pass (knowledge s') False s' = Inr (False, s')"
proof (induction depth arbitrary: s)
  case 0
  then show ?case by simp
next
  case (Suc depth)
  from apply_pass_start [of s] obtain flag' s1 where
    run: "apply_pass (knowledge s) False s = Inr (flag', s1)" by blast
  show ?case
  proof (cases flag')
    case True
    with run Suc.prems have "apply_knowledge depth s1 = Inr s'" by simp
    then show ?thesis by (rule Suc.IH)
  next
    case False
    with run apply_pass_quiet [of "knowledge s" s s1] have "s1 = s" by simp
    with run False Suc.prems show ?thesis by simp
  qed
qed


lemma apply_knowledge_fixpoint:
  "apply_pass (knowledge s) False s = Inr (False, s) \<Longrightarrow> apply_knowledge (Suc depth) s = Inr s"
  by simp

lemma apply_knowledge_depth_pos: "apply_knowledge depth s = Inr s' \<Longrightarrow> 0 < depth"
  by (cases depth) simp_all

text \<open>
  A list that starts with \<open>n\<close> sentences without cells costs \<open>n\<close> passes before anything
  else: each pass removes the first of them and ends.
\<close>

lemma list_remove_hd [simp]: "list_remove (x # xs) x = Some xs"
  by simp


subsection \<open>The board and the neighbours of a cell\<close>

lemma board_cells_iff: "c |\<in>| board_cells s \<longleftrightarrow> on_board s c"
  by (cases c) (auto simp: board_cells_def on_board_def fset_of_list_elem)

lemma fold_cols_if:
  "d |\<in>| fold (\<lambda>col acc. if P col then finsert (row, col) acc else acc) cols A \<longleftrightarrow>
   d |\<in>| A \<or> (fst d = row \<and> snd d \<in> set cols \<and> P (snd d))"
proof (induction cols arbitrary: A)
  case Nil
  then show ?case by simp
next
  case (Cons a cols)
  show ?case
    by (auto simp: Cons.IH prod_eq_iff)
qed

lemma fold_rows_if:
  "d |\<in>| fold (\<lambda>row acc. fold (\<lambda>col acc. if P row col then finsert (row, col) acc else acc)
                              cols acc) rows A \<longleftrightarrow>
   d |\<in>| A \<or> (fst d \<in> set rows \<and> snd d \<in> set cols \<and> P (fst d) (snd d))"
proof (induction rows arbitrary: A)
  case Nil
  then show ?case by simp
next
  case (Cons a rows)
  show ?case
    by (auto simp: Cons.IH fold_cols_if prod_eq_iff)
qed

lemma fold_cols_all:
  "d |\<in>| fold (\<lambda>col acc. finsert (row, col) acc) cols A \<longleftrightarrow>
   d |\<in>| A \<or> (fst d = row \<and> snd d \<in> set cols)"
proof (induction cols arbitrary: A)
  case Nil
  then show ?case by simp
next
  case (Cons a cols)
  show ?case
    by (auto simp: Cons.IH prod_eq_iff)
qed

lemma fold_rows_all:
  "d |\<in>| fold (\<lambda>row acc. fold (\<lambda>col acc. finsert (row, col) acc) cols acc) rows A \<longleftrightarrow>
   d |\<in>| A \<or> (fst d \<in> set rows \<and> snd d \<in> set cols)"
proof (induction rows arbitrary: A)
  case Nil
  then show ?case by simp
next
  case (Cons a rows)
  show ?case
    by (auto simp: Cons.IH fold_cols_all prod_eq_iff)
qed

lemma all_cells_loop:
  "fold (\<lambda>row acc. fold (\<lambda>col acc. finsert (row, col) acc) [0..width s - 1] acc)
        [0..height s - 1] {||} = board_cells s"
  by (rule fset_eqI) (auto simp: fold_rows_all board_cells_iff on_board_def)

lemma block_loop:
  "fold (\<lambda>row acc.
           fold (\<lambda>col acc.
                   if 0 \<le> row \<and> row < height s \<and> 0 \<le> col \<and> col < width s
                   then finsert (row, col) acc else acc)
                [snd c - 1..snd c + 1] acc)
        [fst c - 1..fst c + 1] {||} =
   ffilter (\<lambda>d. \<bar>fst d - fst c\<bar> \<le> 1 \<and> \<bar>snd d - snd c\<bar> \<le> 1) (board_cells s)"
  by (rule fset_eqI) (auto simp: fold_rows_if board_cells_iff on_board_def)

lemma get_neighbouring_cells_eq:
  "get_neighbouring_cells s c =
     (if on_board s c then Inr (board_neighbours s c) else Inl KeyError)"
proof -
  have "ffilter (\<lambda>d. \<bar>fst d - fst c\<bar> \<le> 1 \<and> \<bar>snd d - snd c\<bar> \<le> 1) (board_cells s) |-| {|c|} =
        board_neighbours s c"
    by (rule fset_eqI) (auto simp: board_neighbours_def adjacent_def)
  then show ?thesis
    by (simp add: get_neighbouring_cells_def block_loop board_cells_iff Let_def)
qed

lemma on_board_update [simp]:
  "on_board (s\<lparr>moves_made := m\<rparr>) c = on_board s c"
  "on_board (s\<lparr>safes := sf\<rparr>) c = on_board s c"
  "on_board (s\<lparr>mines := mi\<rparr>) c = on_board s c"
  "on_board (s\<lparr>knowledge := k\<rparr>) c = on_board s c"
  by (simp_all add: on_board_def)

lemma board_neighbours_update [simp]:
  "board_neighbours (s\<lparr>moves_made := m\<rparr>) c = board_neighbours s c"
  "board_neighbours (s\<lparr>safes := sf\<rparr>) c = board_neighbours s c"
  "board_neighbours (s\<lparr>mines := mi\<rparr>) c = board_neighbours s c"
  "board_neighbours (s\<lparr>knowledge := k\<rparr>) c = board_neighbours s c"
  by (simp_all add: board_neighbours_def board_cells_def)

lemma mark_safe_eq:
  "mark_safe s c =
     s\<lparr>safes := finsert c (safes s),
       knowledge := map (\<lambda>sen. sen\<lparr>cells := cells sen |-| {|c|}\<rparr>) (knowledge s)\<rparr>"
proof -
  have "(\<lambda>sen. if c |\<in>| cells sen then Sentence_mark_safe sen c else sen) =
        (\<lambda>sen. sen\<lparr>cells := cells sen |-| {|c|}\<rparr>)"
    by (rule ext) (simp add: Sentence_mark_safe_def)
  then show ?thesis by (simp add: mark_safe_def)
qed

lemma mark_mine_eq:
  "mark_mine s c =
     s\<lparr>mines := finsert c (mines s),
       knowledge := map (\<lambda>sen. if c |\<in>| cells sen
                                then sen\<lparr>cells := cells sen |-| {|c|}, count := count sen - 1\<rparr>
                                else sen) (knowledge s)\<rparr>"
  by (simp add: mark_mine_def Sentence_mark_mine_def cong: map_cong if_cong)

subsection \<open>The resolution loops\<close>

lemma derive_same [simp]: "derive A A = []"
  by (simp add: derive_def)

lemma resolve_inner_Cons:
  "resolve_inner A (B # K) acc = resolve_inner A K (acc @ derive A B)"
  by (simp add: derive_def candidate_def Sentence_init_def Let_def fcard_fempty)

lemma resolve_inner_eq:
  "resolve_inner A K acc = acc @ concat (map (derive A) K)"
  by (induction K arbitrary: acc) (simp_all add: resolve_inner_Cons del: resolve_inner.simps(2))

lemma resolve_outer_eq:
  "resolve_outer K1 K acc = acc @ concat (map (\<lambda>A. concat (map (derive A) K)) K1)"
  by (induction K1 arbitrary: acc) (simp_all add: resolve_inner_eq)

lemma derive_nth:
  "i < length K \<Longrightarrow> j < length K \<Longrightarrow>
   derive (K ! i) (K ! j) =
     (if i \<noteq> j \<and> cells (K ! i) |\<subseteq>| cells (K ! j) \<and> cells (K ! j) |-| cells (K ! i) \<noteq> {||}
      then [candidate (K ! i) (K ! j)] else [])"
  by (auto simp: derive_def fcard_pos fcard_fempty)

lemma concat_map_nth:
  "concat (map f K) = concat (map (\<lambda>i. f (K ! i)) [0..<length K])"
proof -
  have "map f K = map f (map (\<lambda>i. K ! i) [0..<length K])" by (simp add: map_nth)
  then show ?thesis by (simp add: comp_def)
qed

lemma resolution_rule_eq:
  "concat (map (\<lambda>A. concat (map (derive A) K)) K) = resolution_rule K"
proof -
  have "concat (map (\<lambda>A. concat (map (derive A) K)) K) =
        concat (map (\<lambda>i. concat (map (\<lambda>j. derive (K ! i) (K ! j)) [0..<length K])) [0..<length K])"
    by (subst concat_map_nth [of "\<lambda>A. concat (map (derive A) K)" K],
        subst concat_map_nth [of "derive _" K]) (rule refl)
  also have "\<dots> = resolution_rule K"
    unfolding resolution_rule_def
    by (intro arg_cong [where f = concat] map_cong refl) (simp add: derive_nth)
  finally show ?thesis .
qed

subsection \<open>Known cells that sentences still mention\<close>

lemma mentioned_iff: "c |\<in>| mentioned K \<longleftrightarrow> (\<exists>sen \<in> set K. c |\<in>| cells sen)"
  by (induction K) auto

lemma mentioned_settle:
  "fires sen \<Longrightarrow> mentioned (map (settle sen) K) = mentioned K |-| cells sen"
  by (induction K) (auto simp: cells_settle_fires)

lemma marked_pass_step:
  "safes (pass_step sen s) |\<union>| mines (pass_step sen s) |\<subseteq>| safes s |\<union>| mines s |\<union>| cells sen"
  by (auto simp: pass_step_def known_mines_def known_safes_def split: option.splits if_splits)

lemma known_mentioned_pass_step:
  "known_mentioned (pass_step sen s) |\<subseteq>| known_mentioned s"
proof (cases "fires sen")
  case True
  have "knowledge (pass_step sen s) = map (settle sen) (knowledge s)"
    by (simp add: pass_step_def)
  with mentioned_settle [OF True, of "knowledge s"] marked_pass_step [of sen s]
  show ?thesis unfolding known_mentioned_def by auto
next
  case False
  then show ?thesis by (simp add: pass_step_not_fires)
qed

lemma mentioned_list_remove:
  "list_remove K x = Some K' \<Longrightarrow> mentioned K' |\<subseteq>| mentioned K"
  by (induction K arbitrary: K') (auto split: if_splits)

lemma known_mentioned_apply_pass:
  "apply_pass rest flag s = Inr (flag', s') \<Longrightarrow> known_mentioned s' |\<subseteq>| known_mentioned s"
proof (induction rest arbitrary: flag s)
  case Nil
  then show ?case by simp
next
  case (Cons sen rest)
  show ?case
  proof (cases "cells sen = {||}")
    case True
    with Cons.prems obtain K' where
      "list_remove (knowledge s) sen = Some K'" and "s' = s\<lparr>knowledge := K'\<rparr>"
      by (auto simp: apply_pass_Cons_empty split: option.splits)
    with mentioned_list_remove [of "knowledge s" sen K'] show ?thesis
      unfolding known_mentioned_def by auto
  next
    case False
    with Cons.prems have "apply_pass rest (flag \<or> fires sen) (pass_step sen s) = Inr (flag', s')"
      by (simp add: apply_pass_Cons_nonempty)
    from Cons.IH [OF this] known_mentioned_pass_step [of sen s] show ?thesis by auto
  qed
qed

lemma known_mentioned_apply_knowledge:
  "apply_knowledge depth s = Inr s' \<Longrightarrow> known_mentioned s' |\<subseteq>| known_mentioned s"
proof (induction depth arbitrary: s)
  case 0
  then show ?case by simp
next
  case (Suc depth)
  from apply_pass_start [of s] obtain flag1 s1 where
    run: "apply_pass (knowledge s) False s = Inr (flag1, s1)" by blast
  note sub = known_mentioned_apply_pass [OF run]
  show ?case
  proof (cases flag1)
    case True
    with run Suc.prems have "apply_knowledge depth s1 = Inr s'" by simp
    from Suc.IH [OF this] sub show ?thesis by auto
  next
    case False
    with run Suc.prems have "s' = s1" by simp
    with sub show ?thesis by simp
  qed
qed

subsection \<open>Drawing a cell\<close>

lemma length_sorted_list_of_fset [simp]: "length (sorted_list_of_fset A) = fcard A"
  by (simp add: sorted_list_of_fset.rep_eq fcard.rep_eq)

lemma sorted_list_of_fset_nth: "k < fcard A \<Longrightarrow> sorted_list_of_fset A ! k |\<in>| A"
proof -
  assume "k < fcard A"
  then have "sorted_list_of_fset A ! k \<in> set (sorted_list_of_fset A)"
    by (intro nth_mem) simp
  then show ?thesis by simp
qed

lemma fcard_pos_iff: "0 < fcard A \<longleftrightarrow> A \<noteq> {||}"
  using fcard_pos [of A] by (auto simp: fcard_fempty)

lemma make_random_move_eq:
  "make_random_move py s rnd =
     (let U = board_cells s |-| (safes s |\<union>| mines s |\<union>| moves_made s)
      in if U = {||} then Inr None
         else case py of
                Python_3_11_or_later \<Rightarrow> Inl TypeError
              | Python_before_3_11 \<Rightarrow> Inr (Some (sorted_list_of_fset U ! (rnd mod fcard U))))"
  by (cases py)
     (simp_all add: make_random_move_def random_sample_def all_cells_loop Let_def fcard_pos_iff
                    not_less_eq_eq [symmetric] Suc_le_eq)

subsection \<open>Evaluation at concrete stores\<close>

lemma finsert_eq_decide:
  "finsert x A = B \<longleftrightarrow> x |\<in>| B \<and> A |-| {|x|} = B |-| {|x|}"
  by auto

lemma fempty_eq_finsert: "{||} = finsert x A \<longleftrightarrow> False"
  by auto

lemma apply_knowledge_numeral:
  "apply_knowledge (numeral k) s =
     (case apply_pass (knowledge s) False s of
        Inl e \<Rightarrow> Inl e
      | Inr (repeat_flag, s') \<Rightarrow>
          if repeat_flag then apply_knowledge (pred_numeral k) s' else Inr s')"
  by (simp add: numeral_eq_Suc)

lemmas fset_eval =
  finsert_fminus_if fcard_finsert_if fcard_fempty finsert_eq_decide fempty_eq_finsert

lemmas pass_eval =
  apply_pass_Cons_nonempty apply_pass_Cons_empty pass_step_def fires_def settle_def
  known_mines_def known_safes_def strike_mines_def strike_safes_def
  fcard_finsert_if fcard_fempty MinesweeperAI_init_def

lemmas store_eval =
  add_knowledge_def get_hidden_neighbouring_cells_def get_neighbouring_cells_def upto.simps
  mark_safe_eq mark_mine_eq Let_def Sentence_init_def MinesweeperAI_init_def
  apply_knowledge_numeral pass_eval generate_new_knowledge_def

lemma apply_knowledge_example:
  "apply_knowledge 1000
     ((MinesweeperAI_init 3 3)\<lparr>knowledge :=
        [\<lparr>cells = {|(0, 1), (1, 1)|}, count = 1\<rparr>, \<lparr>cells = {|(2, 2)|}, count = 0\<rparr>]\<rparr>) =
   Inr ((MinesweeperAI_init 3 3)\<lparr>safes := {|(2, 2)|},
          knowledge := [\<lparr>cells = {|(0, 1), (1, 1)|}, count = 1\<rparr>]\<rparr>)"
  by (simp add: apply_knowledge_numeral pass_eval)

subsection \<open>An observation of a cell of the board\<close>

lemma add_knowledge_on_board:
  assumes "on_board s c"
  shows "add_knowledge depth s c n =
           (case apply_knowledge depth
                   (let s1 = s\<lparr>moves_made := finsert c (moves_made s)\<rparr>;
                        s2 = mark_safe s1 c;
                        hidden = board_neighbours s c |-| moves_made s2
                    in if hidden = {||} then s2
                       else s2\<lparr>knowledge := knowledge s2 @ [\<lparr>cells = hidden, count = n\<rparr>]\<rparr>) of
              Inl raised \<Rightarrow> Inl raised
            | Inr s4 \<Rightarrow> Inr (s4\<lparr>knowledge := knowledge s4 @ fst (generate_new_knowledge s4)\<rparr>))"
proof -
  define s2 where "s2 = mark_safe (s\<lparr>moves_made := finsert c (moves_made s)\<rparr>) c"
  define hidden where "hidden = board_neighbours s c |-| moves_made s2"
  define s3 where "s3 = (if hidden = {||} then s2
             else s2\<lparr>knowledge := knowledge s2 @ [\<lparr>cells = hidden, count = n\<rparr>]\<rparr>)"
  have hid: "get_hidden_neighbouring_cells s2 c = Inr hidden"
    using assms
    by (simp add: s2_def hidden_def get_hidden_neighbouring_cells_def get_neighbouring_cells_eq
                  mark_safe_eq)
  have s3': "(if fcard hidden > 0
              then s2\<lparr>knowledge := knowledge s2 @ [Sentence_init hidden n]\<rparr> else s2) = s3"
    by (simp add: s3_def fcard_pos_iff Sentence_init_def)
  have "add_knowledge depth s c n =
          (case apply_knowledge depth s3 of
             Inl raised \<Rightarrow> Inl raised
           | Inr s4 \<Rightarrow> Inr (s4\<lparr>knowledge := knowledge s4 @ fst (generate_new_knowledge s4)\<rparr>))"
    unfolding add_knowledge_def Let_def s2_def [symmetric] hid sum.case s3'
    by (simp add: generate_new_knowledge_def split: sum.splits)
  then show ?thesis unfolding Let_def s3_def hidden_def s2_def .
qed

subsection \<open>Soundness of a truthful run\<close>

lemma fcard_split:
  "M |\<subseteq>| T \<Longrightarrow> fcard (A |\<inter>| T) = fcard ((A |-| M) |\<inter>| T) + fcard (A |\<inter>| M)"
proof -
  assume M: "M |\<subseteq>| T"
  have "A |\<inter>| T = ((A |-| M) |\<inter>| T) |\<union>| (A |\<inter>| M)" using M by auto
  moreover have "((A |-| M) |\<inter>| T) |\<inter>| (A |\<inter>| M) = {||}" by auto
  ultimately show ?thesis by (metis fcard_funion_disjoint)
qed

lemma holds_strike_mines: "M |\<subseteq>| T \<Longrightarrow> holds T k \<Longrightarrow> holds T (strike_mines M k)"
  using fcard_split [of M T "cells k"] by (simp add: holds_def strike_mines_def)

lemma holds_strike_safes: "S |\<inter>| T = {||} \<Longrightarrow> holds T k \<Longrightarrow> holds T (strike_safes S k)"
proof -
  assume S: "S |\<inter>| T = {||}" and k: "holds T k"
  have "(cells k |-| S) |\<inter>| T = cells k |\<inter>| T" using S by auto
  with k show ?thesis by (simp add: holds_def strike_safes_def)
qed

lemma known_mines_sound: "holds T sen \<Longrightarrow> known_mines sen = Some M \<Longrightarrow> M |\<subseteq>| T"
proof -
  assume h: "holds T sen" and m: "known_mines sen = Some M"
  then have M: "M = cells sen" and "fcard (cells sen) = fcard (cells sen |\<inter>| T)"
    by (auto simp: known_mines_def holds_def split: if_splits)
  then have "cells sen |\<inter>| T = cells sen"
    by (intro fcard_seteq) auto
  with M show ?thesis by auto
qed

lemma known_safes_sound: "holds T sen \<Longrightarrow> known_safes sen = Some S \<Longrightarrow> S |\<inter>| T = {||}"
  by (auto simp: known_safes_def holds_def split: if_splits)

lemma holds_settle: "holds T sen \<Longrightarrow> holds T k \<Longrightarrow> holds T (settle sen k)"
  by (auto simp: settle_def split: option.splits
           intro!: holds_strike_mines holds_strike_safes dest: known_mines_sound known_safes_sound)

lemma sound_pass_step: "sound T s \<Longrightarrow> holds T sen \<Longrightarrow> sound T (pass_step sen s)"
proof -
  assume s: "sound T s" and h: "holds T sen"
  have m: "(case known_mines sen of None \<Rightarrow> {||} | Some M \<Rightarrow> M) |\<subseteq>| T"
    using known_mines_sound [OF h] by (auto split: option.splits)
  have sf: "(case known_safes sen of None \<Rightarrow> {||} | Some S \<Rightarrow> S) |\<inter>| T = {||}"
    using known_safes_sound [OF h] by (auto split: option.splits)
  have k: "list_all (holds T) (map (settle sen) (knowledge s))"
    using s h by (auto simp: sound_def list_all_iff holds_settle)
  from s m sf k show ?thesis
    unfolding sound_def pass_step_def by (simp add: finter_funion_distrib2) 
qed

lemma list_remove_set: "list_remove K x = Some K' \<Longrightarrow> set K' \<subseteq> set K"
  by (induction K arbitrary: K') (auto split: if_splits)

lemma sound_apply_pass:
  "sound T s \<Longrightarrow> list_all (holds T) rest \<Longrightarrow> apply_pass rest flag s = Inr (flag', s') \<Longrightarrow>
   sound T s'"
proof (induction rest arbitrary: flag s)
  case Nil
  then show ?case by simp
next
  case (Cons sen rest)
  show ?case
  proof (cases "cells sen = {||}")
    case True
    with Cons.prems(3) obtain K' where
      K': "list_remove (knowledge s) sen = Some K'" and s': "s' = s\<lparr>knowledge := K'\<rparr>"
      by (auto simp: apply_pass_Cons_empty split: option.splits)
    from list_remove_set [OF K'] Cons.prems(1) show ?thesis
      unfolding s' sound_def list_all_iff by auto
  next
    case False
    with Cons.prems(3) have run: "apply_pass rest (flag \<or> fires sen) (pass_step sen s) = Inr (flag', s')"
      by (simp add: apply_pass_Cons_nonempty)
    from Cons.prems(2) have h: "holds T sen" and r: "list_all (holds T) rest" by simp_all
    from Cons.IH [OF sound_pass_step [OF Cons.prems(1) h] r run] show ?thesis .
  qed
qed

lemma sound_apply_knowledge:
  "sound T s \<Longrightarrow> apply_knowledge depth s = Inr s' \<or> apply_knowledge depth s = Inl (e, s') \<Longrightarrow>
   sound T s'"
proof (induction depth arbitrary: s)
  case 0
  then show ?case by simp
next
  case (Suc depth)
  from apply_pass_start [of s] obtain flag1 s1 where
    run: "apply_pass (knowledge s) False s = Inr (flag1, s1)" by blast
  from Suc.prems(1) have "list_all (holds T) (knowledge s)" by (simp add: sound_def)
  note s1 = sound_apply_pass [OF Suc.prems(1) this run]
  show ?case
  proof (cases flag1)
    case True
    with run Suc.prems(2)
    have "apply_knowledge depth s1 = Inr s' \<or> apply_knowledge depth s1 = Inl (e, s')" by simp
    from Suc.IH [OF s1 this] show ?thesis .
  next
    case False
    with run Suc.prems(2) have "s' = s1" by simp
    with s1 show ?thesis by simp
  qed
qed

lemma holds_candidate:
  "holds T A \<Longrightarrow> holds T B \<Longrightarrow> cells A |\<subseteq>| cells B \<Longrightarrow> holds T (candidate A B)"
proof -
  assume A: "holds T A" and B: "holds T B" and sub: "cells A |\<subseteq>| cells B"
  have "cells B |\<inter>| T = ((cells B |-| cells A) |\<inter>| T) |\<union>| (cells A |\<inter>| T)"
    using sub by auto
  moreover have "((cells B |-| cells A) |\<inter>| T) |\<inter>| (cells A |\<inter>| T) = {||}" by auto
  ultimately have "fcard (cells B |\<inter>| T) =
      fcard ((cells B |-| cells A) |\<inter>| T) + fcard (cells A |\<inter>| T)"
    by (metis fcard_funion_disjoint)
  with A B show ?thesis by (simp add: holds_def candidate_def)
qed

lemma holds_generate_new_knowledge:
  "list_all (holds T) (knowledge s) \<Longrightarrow> list_all (holds T) (fst (generate_new_knowledge s))"
  by (auto simp: generate_new_knowledge_def resolve_outer_eq list_all_iff derive_def
           intro: holds_candidate split: if_splits)

lemma sound_mark_safe: "sound T s \<Longrightarrow> c |\<notin>| T \<Longrightarrow> sound T (mark_safe s c)"
proof -
  assume s: "sound T s" and c: "c |\<notin>| T"
  have eq: "(\<lambda>sen. sen\<lparr>cells := cells sen |-| {|c|}\<rparr>) = strike_safes {|c|}"
    by (rule ext) (simp add: strike_safes_def)
  have "{|c|} |\<inter>| T = {||}" using c by auto
  from holds_strike_safes [OF this] s c show ?thesis
    unfolding mark_safe_eq eq sound_def list_all_iff by auto
qed

lemma sound_mark_mine: "sound T s \<Longrightarrow> c |\<in>| T \<Longrightarrow> sound T (mark_mine s c)"
proof -
  assume s: "sound T s" and c: "c |\<in>| T"
  have "mark_mine s c = mark_mines {|c|} s"
    using mark_mines_any_order [of "[c]" "{|c|}" s] by simp
  also have "\<dots> = s\<lparr>mines := {|c|} |\<union>| mines s, knowledge := map (strike_mines {|c|}) (knowledge s)\<rparr>"
    by (rule mark_mines_eq)
  finally have eq: "mark_mine s c =
      s\<lparr>mines := {|c|} |\<union>| mines s, knowledge := map (strike_mines {|c|}) (knowledge s)\<rparr>" .
  have "{|c|} |\<subseteq>| T" using c by simp
  from holds_strike_mines [OF this] s c show ?thesis
    unfolding eq sound_def list_all_iff by auto
qed

lemma sound_add_knowledge:
  assumes s: "sound T s" and c: "c |\<notin>| T"
    and nb: "get_neighbouring_cells s c = Inr nb"
    and run: "add_knowledge depth s c (int (fcard (nb |\<inter>| T))) = Inr s' \<or>
              add_knowledge depth s c (int (fcard (nb |\<inter>| T))) = Inl (e, s')"
  shows "sound T s'"
proof -
  define n where "n = int (fcard (nb |\<inter>| T))"
  define s2 where "s2 = mark_safe (s\<lparr>moves_made := finsert c (moves_made s)\<rparr>) c"
  define hidden where "hidden = board_neighbours s c |-| moves_made s2"
  define s3 where "s3 = (if hidden = {||} then s2
             else s2\<lparr>knowledge := knowledge s2 @ [\<lparr>cells = hidden, count = n\<rparr>]\<rparr>)"
  from nb have on: "on_board s c" and nb_eq: "nb = board_neighbours s c"
    by (auto simp: get_neighbouring_cells_eq split: if_splits)
  have res: "add_knowledge depth s c n =
      (case apply_knowledge depth s3 of
         Inl raised \<Rightarrow> Inl raised
       | Inr s4 \<Rightarrow> Inr (s4\<lparr>knowledge := knowledge s4 @ fst (generate_new_knowledge s4)\<rparr>))"
    using add_knowledge_on_board [OF on, of depth n]
    unfolding Let_def s3_def hidden_def s2_def .
  have "sound T (s\<lparr>moves_made := finsert c (moves_made s)\<rparr>)"
    using s c by (auto simp: sound_def)
  then have s2: "sound T s2" unfolding s2_def using c by (rule sound_mark_safe)
  have mm: "moves_made s2 |\<inter>| T = {||}" using s2 by (simp add: sound_def)
  have "hidden |\<inter>| T = nb |\<inter>| T" unfolding hidden_def nb_eq using mm by auto
  then have "holds T \<lparr>cells = hidden, count = n\<rparr>" by (simp add: holds_def n_def)
  with s2 have s3: "sound T s3" by (simp add: s3_def sound_def)
  show ?thesis
  proof (cases "apply_knowledge depth s3")
    case (Inl raised)
    with res run have "apply_knowledge depth s3 = Inl (e, s')" by (simp add: n_def)
    with sound_apply_knowledge [OF s3] show ?thesis by blast
  next
    case (Inr s4)
    with sound_apply_knowledge [OF s3] have s4s: "sound T s4" by blast
    then have "list_all (holds T) (knowledge s4)" by (simp add: sound_def)
    from holds_generate_new_knowledge [OF this] s4s
    have "sound T (s4\<lparr>knowledge := knowledge s4 @ fst (generate_new_knowledge s4)\<rparr>)"
      by (simp add: sound_def)
    with res run Inr show ?thesis by (simp add: n_def)
  qed
qed

lemma reachable_sound: "reachable T s \<Longrightarrow> sound T s"
proof (induction rule: reachable.induct)
  case (start h w)
  show ?case by (simp add: sound_def MinesweeperAI_init_def)
next
  case (observe s c nb depth s')
  then show ?case by (auto intro: sound_add_knowledge)
next
  case (observe_raised s c nb depth e s')
  then show ?case by (auto intro: sound_add_knowledge)
next
  case (flag_mine s c)
  then show ?case by (simp add: sound_mark_mine)
next
  case (flag_safe s c)
  then show ?case by (simp add: sound_mark_safe)
qed

subsection \<open>Observations and closures evaluated\<close>







subsection \<open>Properties of the closure\<close>




text \<open>
  Claim C6: \<^verbatim>\<open>apply_knowledge\<close> is idempotent. When a run returns a store, a second run
  on that store returns it unchanged; and a run returns whenever the interpreter admits
  more nested calls than the weight of the list.
\<close>

theorem apply_knowledge_idempotent:
  "(apply_knowledge depth s = Inr s' \<longrightarrow> apply_knowledge depth s' = Inr s') \<and>
   (weight (knowledge s) < depth \<longrightarrow>
      (\<exists>s''. apply_knowledge depth s = Inr s'' \<and> apply_knowledge depth s'' = Inr s''))"
proof -
  have 1: "apply_knowledge depth t' = Inr t'" if "apply_knowledge depth t = Inr t'" for t t'
  proof -
    from apply_knowledge_depth_pos [OF that] obtain d where d: "depth = Suc d"
      by (cases depth) simp_all
    from apply_knowledge_closed [OF that] show ?thesis
      unfolding d by (rule apply_knowledge_fixpoint)
  qed
  from 1 apply_knowledge_returns [of s depth] show ?thesis by blast
qed

theorem apply_knowledge_idempotent_witness:
  "apply_knowledge 1000 ((MinesweeperAI_init 3 3)\<lparr>knowledge :=
        [\<lparr>cells = {|(0, 1), (1, 1)|}, count = 1\<rparr>, \<lparr>cells = {|(2, 2)|}, count = 0\<rparr>]\<rparr>) =
     Inr ((MinesweeperAI_init 3 3)\<lparr>safes := {|(2, 2)|},
          knowledge := [\<lparr>cells = {|(0, 1), (1, 1)|}, count = 1\<rparr>]\<rparr>) \<and>
   apply_knowledge 1000 ((MinesweeperAI_init 3 3)\<lparr>safes := {|(2, 2)|},
          knowledge := [\<lparr>cells = {|(0, 1), (1, 1)|}, count = 1\<rparr>]\<rparr>) =
     Inr ((MinesweeperAI_init 3 3)\<lparr>safes := {|(2, 2)|},
          knowledge := [\<lparr>cells = {|(0, 1), (1, 1)|}, count = 1\<rparr>]\<rparr>) \<and>
   weight (knowledge ((MinesweeperAI_init 3 3)\<lparr>knowledge :=
        [\<lparr>cells = {|(0, 1), (1, 1)|}, count = 1\<rparr>, \<lparr>cells = {|(2, 2)|}, count = 0\<rparr>]\<rparr>)) < 1000"
proof -
  have w: "weight (knowledge ((MinesweeperAI_init 3 3)\<lparr>knowledge :=
        [\<lparr>cells = {|(0, 1), (1, 1)|}, count = 1\<rparr>, \<lparr>cells = {|(2, 2)|}, count = 0\<rparr>]\<rparr>)) < 1000"
    by (simp add: fset_eval)
  from apply_knowledge_idempotent
         [of 1000 "((MinesweeperAI_init 3 3)\<lparr>knowledge :=
        [\<lparr>cells = {|(0, 1), (1, 1)|}, count = 1\<rparr>, \<lparr>cells = {|(2, 2)|}, count = 0\<rparr>]\<rparr>)"
             "((MinesweeperAI_init 3 3)\<lparr>safes := {|(2, 2)|},
          knowledge := [\<lparr>cells = {|(0, 1), (1, 1)|}, count = 1\<rparr>]\<rparr>)"]
       apply_knowledge_example w
  show ?thesis by blast
qed

text \<open>
  Claim C10: whenever \<^verbatim>\<open>apply_knowledge\<close> returns, every sentence left in the knowledge
  list has at least one cell, a count that is not 0 and a count that is not the number of
  its cells; so neither \<^verbatim>\<open>known_mines\<close> nor \<^verbatim>\<open>known_safes\<close> returns a set for it.
\<close>

theorem apply_knowledge_informative:
  assumes "apply_knowledge depth s = Inr s'" and "sen \<in> set (knowledge s')"
  shows "cells sen \<noteq> {||} \<and> count sen \<noteq> 0 \<and> count sen \<noteq> int (fcard (cells sen)) \<and>
         known_mines sen = None \<and> known_safes sen = None"
proof -
  from apply_knowledge_closed [OF assms(1)]
  have "apply_pass (knowledge s') False s' = Inr (False, s')" .
  from apply_pass_quiet [OF this] assms(2)
  have "cells sen \<noteq> {||}" and "\<not> fires sen" by auto
  then show ?thesis
    by (auto simp: fires_def known_mines_def known_safes_def split: if_splits)
qed

theorem apply_knowledge_informative_witness:
  "apply_knowledge 1000 ((MinesweeperAI_init 3 3)\<lparr>knowledge :=
        [\<lparr>cells = {|(0, 1), (1, 1)|}, count = 1\<rparr>, \<lparr>cells = {|(2, 2)|}, count = 0\<rparr>]\<rparr>) =
   Inr ((MinesweeperAI_init 3 3)\<lparr>safes := {|(2, 2)|},
          knowledge := [\<lparr>cells = {|(0, 1), (1, 1)|}, count = 1\<rparr>]\<rparr>) \<and>
   \<lparr>cells = {|(0, 1), (1, 1)|}, count = 1\<rparr> \<in>
     set (knowledge ((MinesweeperAI_init 3 3)\<lparr>safes := {|(2, 2)|},
          knowledge := [\<lparr>cells = {|(0, 1), (1, 1)|}, count = 1\<rparr>]\<rparr>)) \<and>
   cells \<lparr>cells = {|(0, 1), (1, 1)|}, count = 1\<rparr> \<noteq> {||} \<and>
   count \<lparr>cells = {|(0, 1), (1, 1)|}, count = 1\<rparr> \<noteq> 0 \<and>
   count \<lparr>cells = {|(0, 1), (1, 1)|}, count = 1\<rparr> \<noteq>
     int (fcard (cells \<lparr>cells = {|(0, 1), (1, 1)|}, count = 1\<rparr>)) \<and>
   known_mines \<lparr>cells = {|(0, 1), (1, 1)|}, count = 1\<rparr> = None \<and>
   known_safes \<lparr>cells = {|(0, 1), (1, 1)|}, count = 1\<rparr> = None"
proof -
  have mem: "\<lparr>cells = {|(0, 1), (1, 1)|}, count = 1\<rparr> \<in>
     set (knowledge ((MinesweeperAI_init 3 3)\<lparr>safes := {|(2, 2)|},
          knowledge := [\<lparr>cells = {|(0, 1), (1, 1)|}, count = 1\<rparr>]\<rparr>))"
    by simp
  from apply_knowledge_informative [OF apply_knowledge_example mem] apply_knowledge_example mem
  show ?thesis by blast
qed

subsection \<open>Facts about sentences\<close>

lemma known_mines_None_iff: "known_mines sen = None \<longleftrightarrow> count sen \<noteq> int (fcard (cells sen))"
  by (auto simp: known_mines_def)

text \<open>
  Claim C4, as the code has it: \<^verbatim>\<open>known_mines\<close> returns the cell set of the sentence
  exactly when the count equals the number of cells, and \<^verbatim>\<open>None\<close> otherwise; there is no
  test for emptiness, so for a sentence with no cells and count 0 it returns the empty set.
\<close>

theorem known_mines_returns:
  "(known_mines sen = Some M \<longleftrightarrow> M = cells sen \<and> count sen = int (fcard (cells sen))) \<and>
   (known_mines sen = None \<longleftrightarrow> count sen \<noteq> int (fcard (cells sen))) \<and>
   known_mines \<lparr>cells = {||}, count = 0\<rparr> = Some {||}"
  by (auto simp: known_mines_def)

text \<open>
  Claim C4 as the specification states it fails: for the sentence with no cells and
  count 0 the method does not return \<^verbatim>\<open>None\<close>.
\<close>

theorem known_mines_empty_counterexample:
  "known_mines \<lparr>cells = {||}, count = 0\<rparr> \<noteq>
     (if count \<lparr>cells = {||}, count = 0\<rparr> = int (fcard (cells \<lparr>cells = {||}, count = 0\<rparr>))
         \<and> cells \<lparr>cells = {||}, count = 0\<rparr> \<noteq> {||}
      then Some (cells \<lparr>cells = {||}, count = 0\<rparr>) else None)"
  by (simp add: known_mines_def)

subsection \<open>Claims about resolution, move selection and observation intake\<close>

text \<open>
  Claim C3: \<^verbatim>\<open>generate_new_knowledge\<close> returns, in the order of the two loops, exactly the
  candidates (cells of \<open>B\<close> minus cells of \<open>A\<close>, count of \<open>B\<close> minus count of \<open>A\<close>) of
  the ordered pairs of sentences at different positions of the knowledge list with the cells
  of \<open>A\<close> a subset of the cells of \<open>B\<close> and a non-empty difference; and it leaves the
  store as it is. (The program compares the two sentences by value; a pair of equal
  sentences at different positions has an empty difference, so both readings of
  "distinct" select the same pairs.)
\<close>

theorem generate_new_knowledge_rule:
  "generate_new_knowledge s = (resolution_rule (knowledge s), s)"
  by (simp add: generate_new_knowledge_def resolve_outer_eq resolution_rule_eq)

text \<open>
  Claim C8. \<^verbatim>\<open>make_random_move\<close> works on the set of all board cells minus
  \<open>safes \<union> mines \<union> moves_made\<close>. If that set is empty it returns \<^verbatim>\<open>None\<close>. If it is
  not empty, the method returns one of its elements, whatever the draw, on an interpreter
  before Python 3.11, as its docstring says; from Python 3.11 on \<^verbatim>\<open>random.sample\<close>
  refuses the set and the method ends in \<^verbatim>\<open>TypeError\<close>. A cell that it returns is never
  in \<open>moves_made \<union> mines\<close>.
\<close>

theorem make_random_move_versions:
  "(board_cells s |-| (safes s |\<union>| mines s |\<union>| moves_made s) = {||} \<longrightarrow>
      make_random_move py s rnd = Inr None) \<and>
   (board_cells s |-| (safes s |\<union>| mines s |\<union>| moves_made s) \<noteq> {||} \<longrightarrow>
      (\<exists>c. c |\<in>| board_cells s |-| (safes s |\<union>| mines s |\<union>| moves_made s) \<and>
           make_random_move Python_before_3_11 s rnd = Inr (Some c)) \<and>
      make_random_move Python_3_11_or_later s rnd = Inl TypeError) \<and>
   (\<forall>c. make_random_move py s rnd = Inr (Some c) \<longrightarrow> c |\<notin>| moves_made s |\<union>| mines s)"
proof -
  define U where "U = board_cells s |-| (safes s |\<union>| mines s |\<union>| moves_made s)"
  have run: "make_random_move py s rnd =
               (if U = {||} then Inr None
                else case py of
                       Python_3_11_or_later \<Rightarrow> Inl TypeError
                     | Python_before_3_11 \<Rightarrow> Inr (Some (sorted_list_of_fset U ! (rnd mod fcard U))))"
    for py
    unfolding U_def make_random_move_eq Let_def ..
  have pick: "sorted_list_of_fset U ! (rnd mod fcard U) |\<in>| U" if "U \<noteq> {||}"
    using that by (intro sorted_list_of_fset_nth) (simp add: fcard_pos)
  have known: "c |\<notin>| moves_made s |\<union>| mines s" if "c |\<in>| U" for c
    using that by (auto simp: U_def)
  have "(U = {||} \<longrightarrow> make_random_move py s rnd = Inr None) \<and>
        (U \<noteq> {||} \<longrightarrow>
           (\<exists>c. c |\<in>| U \<and> make_random_move Python_before_3_11 s rnd = Inr (Some c)) \<and>
           make_random_move Python_3_11_or_later s rnd = Inl TypeError) \<and>
        (\<forall>c. make_random_move py s rnd = Inr (Some c) \<longrightarrow> c |\<notin>| moves_made s |\<union>| mines s)"
  proof (cases "U = {||}")
    case True
    then show ?thesis by (simp add: run)
  next
    case False
    have "\<exists>c. c |\<in>| U \<and> make_random_move Python_before_3_11 s rnd = Inr (Some c)"
      using pick [OF False] False
      by (intro exI [of _ "sorted_list_of_fset U ! (rnd mod fcard U)"]) (simp add: run)
    moreover have "make_random_move Python_3_11_or_later s rnd = Inl TypeError"
      using False by (simp add: run)
    moreover have "\<forall>c. make_random_move py s rnd = Inr (Some c) \<longrightarrow>
                       c |\<notin>| moves_made s |\<union>| mines s"
      using known [OF pick [OF False]] False by (cases py) (simp_all add: run)
    ultimately show ?thesis using False by simp
  qed
  then show ?thesis unfolding U_def .
qed

text \<open>
  On a board of one row and two columns with the move (0, 0) made, the cell (0, 1) is the
  only unknown cell: before Python 3.11 it is returned, from Python 3.11 on the method
  raises. On a board of one cell that is a known mine the method returns \<^verbatim>\<open>None\<close> on
  both.
\<close>

theorem make_random_move_versions_witness:
  "board_cells ((MinesweeperAI_init 1 2)\<lparr>moves_made := {|(0, 0)|}\<rparr>) |-|
     (safes ((MinesweeperAI_init 1 2)\<lparr>moves_made := {|(0, 0)|}\<rparr>) |\<union>|
      mines ((MinesweeperAI_init 1 2)\<lparr>moves_made := {|(0, 0)|}\<rparr>) |\<union>|
      moves_made ((MinesweeperAI_init 1 2)\<lparr>moves_made := {|(0, 0)|}\<rparr>)) \<noteq> {||} \<and>
   make_random_move Python_before_3_11 ((MinesweeperAI_init 1 2)\<lparr>moves_made := {|(0, 0)|}\<rparr>) 7 =
     Inr (Some (0, 1)) \<and>
   make_random_move Python_3_11_or_later ((MinesweeperAI_init 1 2)\<lparr>moves_made := {|(0, 0)|}\<rparr>) 7 =
     Inl TypeError \<and>
   (0, 1) |\<notin>| moves_made ((MinesweeperAI_init 1 2)\<lparr>moves_made := {|(0, 0)|}\<rparr>) |\<union>|
              mines ((MinesweeperAI_init 1 2)\<lparr>moves_made := {|(0, 0)|}\<rparr>) \<and>
   board_cells ((MinesweeperAI_init 1 1)\<lparr>mines := {|(0, 0)|}\<rparr>) |-|
     (safes ((MinesweeperAI_init 1 1)\<lparr>mines := {|(0, 0)|}\<rparr>) |\<union>|
      mines ((MinesweeperAI_init 1 1)\<lparr>mines := {|(0, 0)|}\<rparr>) |\<union>|
      moves_made ((MinesweeperAI_init 1 1)\<lparr>mines := {|(0, 0)|}\<rparr>)) = {||} \<and>
   make_random_move Python_3_11_or_later ((MinesweeperAI_init 1 1)\<lparr>mines := {|(0, 0)|}\<rparr>) 7 =
     Inr None"
proof -
  have U: "board_cells ((MinesweeperAI_init 1 2)\<lparr>moves_made := {|(0, 0)|}\<rparr>) |-|
     (safes ((MinesweeperAI_init 1 2)\<lparr>moves_made := {|(0, 0)|}\<rparr>) |\<union>|
      mines ((MinesweeperAI_init 1 2)\<lparr>moves_made := {|(0, 0)|}\<rparr>) |\<union>|
      moves_made ((MinesweeperAI_init 1 2)\<lparr>moves_made := {|(0, 0)|}\<rparr>)) = {|(0, 1)|}"
    by (simp add: board_cells_def MinesweeperAI_init_def upto.simps fset_eval)
  have V: "board_cells ((MinesweeperAI_init 1 1)\<lparr>mines := {|(0, 0)|}\<rparr>) |-|
     (safes ((MinesweeperAI_init 1 1)\<lparr>mines := {|(0, 0)|}\<rparr>) |\<union>|
      mines ((MinesweeperAI_init 1 1)\<lparr>mines := {|(0, 0)|}\<rparr>) |\<union>|
      moves_made ((MinesweeperAI_init 1 1)\<lparr>mines := {|(0, 0)|}\<rparr>)) = {||}"
    by (simp add: board_cells_def MinesweeperAI_init_def upto.simps fset_eval)
  from make_random_move_versions
         [of "(MinesweeperAI_init 1 2)\<lparr>moves_made := {|(0, 0)|}\<rparr>" Python_before_3_11 7]
  have 1: "make_random_move Python_before_3_11
             ((MinesweeperAI_init 1 2)\<lparr>moves_made := {|(0, 0)|}\<rparr>) 7 = Inr (Some (0, 1))"
    and 2: "make_random_move Python_3_11_or_later
             ((MinesweeperAI_init 1 2)\<lparr>moves_made := {|(0, 0)|}\<rparr>) 7 = Inl TypeError"
    unfolding U by auto
  from make_random_move_versions
         [of "(MinesweeperAI_init 1 1)\<lparr>mines := {|(0, 0)|}\<rparr>" Python_3_11_or_later 7]
  have 3: "make_random_move Python_3_11_or_later
             ((MinesweeperAI_init 1 1)\<lparr>mines := {|(0, 0)|}\<rparr>) 7 = Inr None"
    unfolding V by simp
  have 4: "(0, 1) |\<notin>| moves_made ((MinesweeperAI_init 1 2)\<lparr>moves_made := {|(0, 0)|}\<rparr>) |\<union>|
              mines ((MinesweeperAI_init 1 2)\<lparr>moves_made := {|(0, 0)|}\<rparr>)"
    by (simp add: MinesweeperAI_init_def)
  from 1 2 3 4 show ?thesis unfolding U V by simp
qed

lemma add_knowledge_example_corner:
  "add_knowledge 1000 (MinesweeperAI_init 3 3) (0, 0) 3 =
     Inr \<lparr>height = 3, width = 3, moves_made = {|(0, 0)|},
            mines = {|(1, 1), (1, 0), (0, 1)|}, safes = {|(0, 0)|}, knowledge = []\<rparr>"
  by (simp add: store_eval fset_eval)

lemma add_knowledge_example_known_mine:
  "add_knowledge 1000 \<lparr>height = 3, width = 3, moves_made = {|(0, 0)|},
            mines = {|(1, 1), (1, 0), (0, 1)|}, safes = {|(0, 0)|}, knowledge = []\<rparr> (0, 2) 2 =
   Inr \<lparr>height = 3, width = 3, moves_made = {|(0, 2), (0, 0)|},
            mines = {|(1, 1), (1, 0), (0, 1)|}, safes = {|(0, 2), (0, 0)|},
            knowledge = [\<lparr>cells = {|(1, 2), (1, 1), (0, 1)|}, count = 2\<rparr>]\<rparr>"
  by (simp add: store_eval fset_eval)

lemma add_knowledge_example_off_board:
  "add_knowledge 1000 (MinesweeperAI_init 3 3) (5, 5) 0 =
   Inl (KeyError,
          \<lparr>height = 3, width = 3, moves_made = {|(5, 5)|}, mines = {||},
             safes = {|(5, 5)|}, knowledge = []\<rparr>)"
  by (simp add: store_eval fset_eval)

lemma apply_knowledge_example_known_mine:
  "apply_knowledge 1000
     \<lparr>height = 3, width = 3, moves_made = {|(0, 2), (0, 0)|},
      mines = {|(1, 1), (1, 0), (0, 1)|}, safes = {|(0, 2), (0, 0)|},
      knowledge = [\<lparr>cells = {|(1, 2), (1, 1), (0, 1)|}, count = 2\<rparr>]\<rparr> =
   Inr \<lparr>height = 3, width = 3, moves_made = {|(0, 2), (0, 0)|},
        mines = {|(1, 1), (1, 0), (0, 1)|}, safes = {|(0, 2), (0, 0)|},
        knowledge = [\<lparr>cells = {|(1, 2), (1, 1), (0, 1)|}, count = 2\<rparr>]\<rparr>"
  by (simp add: store_eval fset_eval)

text \<open>
  Claim C9, as the code has it: there is no validation of the cell. For a cell outside the
  board \<^verbatim>\<open>add_knowledge\<close> raises the \<^verbatim>\<open>KeyError\<close> of \<^verbatim>\<open>set.remove\<close> in
  \<^verbatim>\<open>get_neighbouring_cells\<close>, after it has added the cell to \<^verbatim>\<open>moves_made\<close> and to
  \<^verbatim>\<open>safes\<close> and removed it from every sentence that holds it. Nothing is appended to the
  knowledge list, \<^verbatim>\<open>mines\<close> is unchanged, and neither the closure nor the resolution
  runs, whatever depth the interpreter has left.
\<close>

theorem add_knowledge_off_board:
  assumes "\<not> on_board s c"
  shows "add_knowledge depth s c n =
           Inl (KeyError,
                s\<lparr>moves_made := finsert c (moves_made s),
                  safes := finsert c (safes s),
                  knowledge := map (\<lambda>sen. sen\<lparr>cells := cells sen |-| {|c|}\<rparr>) (knowledge s)\<rparr>)"
  using assms
  by (simp add: add_knowledge_def get_hidden_neighbouring_cells_def get_neighbouring_cells_eq
                mark_safe_eq Let_def)

theorem add_knowledge_off_board_witness:
  "\<not> on_board (MinesweeperAI_init 3 3) (5, 5) \<and>
   add_knowledge 1000 (MinesweeperAI_init 3 3) (5, 5) 0 =
     Inl (KeyError,
          (MinesweeperAI_init 3 3)\<lparr>moves_made := finsert (5, 5) (moves_made (MinesweeperAI_init 3 3)),
             safes := finsert (5, 5) (safes (MinesweeperAI_init 3 3)),
             knowledge := map (\<lambda>sen. sen\<lparr>cells := cells sen |-| {|(5, 5)|}\<rparr>)
                              (knowledge (MinesweeperAI_init 3 3))\<rparr>)"
proof -
  have off: "\<not> on_board (MinesweeperAI_init 3 3) (5, 5)"
    by (simp add: on_board_def MinesweeperAI_init_def)
  from add_knowledge_off_board [OF off, where depth = 1000 and n = 0] off show ?thesis by simp
qed

text \<open>
  Claim C9 as the specification states it fails: on a 3 by 3 board the call with the cell
  (5, 5) is not rejected with the store as it was. It ends in a \<^verbatim>\<open>KeyError\<close> and leaves
  the cell, which is not a cell of the board, in \<^verbatim>\<open>moves_made\<close> and in \<^verbatim>\<open>safes\<close>.
\<close>

theorem add_knowledge_off_board_counterexample:
  "add_knowledge 1000 (MinesweeperAI_init 3 3) (5, 5) 0 =
     Inl (KeyError,
          \<lparr>height = 3, width = 3, moves_made = {|(5, 5)|}, mines = {||},
             safes = {|(5, 5)|}, knowledge = []\<rparr>) \<and>
   \<lparr>height = 3, width = 3, moves_made = {|(5, 5)|}, mines = {||},
      safes = {|(5, 5)|}, knowledge = []\<rparr> \<noteq> MinesweeperAI_init 3 3 \<and>
   \<not> on_board (MinesweeperAI_init 3 3) (5, 5)"
  using add_knowledge_example_off_board
  by (simp add: MinesweeperAI_init_def on_board_def)




subsection \<open>Claims about the cells known safe and known to be mines\<close>

text \<open>
  Claim C2, as the code has it: when \<^verbatim>\<open>apply_knowledge\<close> returns, a cell of a sentence of
  the knowledge list is in \<^verbatim>\<open>safes\<close> or \<^verbatim>\<open>mines\<close> only if it was there, and in a
  sentence of the list, when \<^verbatim>\<open>apply_knowledge\<close> was called. The closure strikes from every
  sentence the cells it marks; it does not strike cells that were known before a sentence
  holding them was added.
\<close>

theorem apply_knowledge_known_cells:
  assumes "apply_knowledge depth s = Inr s'"
    and "sen \<in> set (knowledge s')" and "c |\<in>| cells sen" and "c |\<in>| safes s' |\<union>| mines s'"
  shows "c |\<in>| safes s |\<union>| mines s \<and> (\<exists>sen0 \<in> set (knowledge s). c |\<in>| cells sen0)"
proof -
  from assms(2-4) have "c |\<in>| known_mentioned s'"
    unfolding known_mentioned_def by (auto simp: mentioned_iff)
  with known_mentioned_apply_knowledge [OF assms(1)] have "c |\<in>| known_mentioned s" by auto
  then show ?thesis
    unfolding known_mentioned_def by (auto simp: mentioned_iff)
qed

theorem apply_knowledge_known_cells_witness:
  "apply_knowledge 1000
     \<lparr>height = 3, width = 3, moves_made = {|(0, 2), (0, 0)|},
      mines = {|(1, 1), (1, 0), (0, 1)|}, safes = {|(0, 2), (0, 0)|},
      knowledge = [\<lparr>cells = {|(1, 2), (1, 1), (0, 1)|}, count = 2\<rparr>]\<rparr> =
   Inr \<lparr>height = 3, width = 3, moves_made = {|(0, 2), (0, 0)|},
        mines = {|(1, 1), (1, 0), (0, 1)|}, safes = {|(0, 2), (0, 0)|},
        knowledge = [\<lparr>cells = {|(1, 2), (1, 1), (0, 1)|}, count = 2\<rparr>]\<rparr> \<and>
   (0, 1) |\<in>| cells \<lparr>cells = {|(1, 2), (1, 1), (0, 1)|}, count = 2\<rparr> \<and>
   ((0, 1)::cell) |\<in>| {|(0, 2), (0, 0)|} |\<union>| {|(1, 1), (1, 0), (0, 1)|} \<and>
   (\<exists>sen0 \<in> set [\<lparr>cells = {|(1, 2), (1, 1), (0, 1)|}, count = 2\<rparr>]. (0, 1) |\<in>| cells sen0)"
proof -
  let ?s = "\<lparr>height = 3, width = 3, moves_made = {|(0, 2), (0, 0)|},
      mines = {|(1, 1), (1, 0), (0, 1)|}, safes = {|(0, 2), (0, 0)|},
      knowledge = [\<lparr>cells = {|(1, 2), (1, 1), (0, 1)|}, count = 2\<rparr>]\<rparr>"
  let ?sen = "\<lparr>cells = {|(1, 2), (1, 1), (0, 1)|}, count = 2\<rparr>"
  have 1: "?sen \<in> set (knowledge ?s)" by simp
  have 2: "(0, 1) |\<in>| cells ?sen" by simp
  have 3: "(0, 1) |\<in>| safes ?s |\<union>| mines ?s" by simp
  from apply_knowledge_known_cells [OF apply_knowledge_example_known_mine 1 2 3]
    apply_knowledge_example_known_mine
  show ?thesis by simp
qed

text \<open>
  Claim C2 as the specification states it fails. On a 3 by 3 board with mines at (0, 1),
  (1, 0) and (1, 1), the observation of (0, 0) with count 3 makes the three cells known
  mines; the observation of (0, 2) with count 2 then adds the sentence of its neighbours
  (0, 1), (1, 1) and (1, 2). The closure is at its fixpoint and the call ends with the known
  mine (0, 1) in a sentence of the list.
\<close>

theorem known_cell_in_sentence_counterexample:
  "add_knowledge 1000 (MinesweeperAI_init 3 3) (0, 0) 3 =
     Inr \<lparr>height = 3, width = 3, moves_made = {|(0, 0)|},
          mines = {|(1, 1), (1, 0), (0, 1)|}, safes = {|(0, 0)|}, knowledge = []\<rparr> \<and>
   add_knowledge 1000
     \<lparr>height = 3, width = 3, moves_made = {|(0, 0)|},
      mines = {|(1, 1), (1, 0), (0, 1)|}, safes = {|(0, 0)|}, knowledge = []\<rparr> (0, 2) 2 =
     Inr \<lparr>height = 3, width = 3, moves_made = {|(0, 2), (0, 0)|},
          mines = {|(1, 1), (1, 0), (0, 1)|}, safes = {|(0, 2), (0, 0)|},
          knowledge = [\<lparr>cells = {|(1, 2), (1, 1), (0, 1)|}, count = 2\<rparr>]\<rparr> \<and>
   apply_knowledge 1000
     \<lparr>height = 3, width = 3, moves_made = {|(0, 2), (0, 0)|},
      mines = {|(1, 1), (1, 0), (0, 1)|}, safes = {|(0, 2), (0, 0)|},
      knowledge = [\<lparr>cells = {|(1, 2), (1, 1), (0, 1)|}, count = 2\<rparr>]\<rparr> =
     Inr \<lparr>height = 3, width = 3, moves_made = {|(0, 2), (0, 0)|},
          mines = {|(1, 1), (1, 0), (0, 1)|}, safes = {|(0, 2), (0, 0)|},
          knowledge = [\<lparr>cells = {|(1, 2), (1, 1), (0, 1)|}, count = 2\<rparr>]\<rparr> \<and>
   (0, 1) |\<in>| cells \<lparr>cells = {|(1, 2), (1, 1), (0, 1)|}, count = 2\<rparr> \<and>
   ((0, 1)::cell) |\<in>| {|(1, 1), (1, 0), (0, 1)|}"
  using add_knowledge_example_corner add_knowledge_example_known_mine
    apply_knowledge_example_known_mine
  by simp

text \<open>
  Claim C1, as the code has it: in every store of a truthful run the cells known safe and
  the cells known to be mines are disjoint. Nothing in the code keeps the two sets apart;
  they stay apart because every cell is marked according to the board.
\<close>

theorem reachable_safes_mines_disjoint:
  "reachable T s \<Longrightarrow> safes s |\<inter>| mines s = {||}"
proof -
  assume "reachable T s"
  then have "sound T s" by (rule reachable_sound)
  then show ?thesis unfolding sound_def by auto
qed

theorem reachable_safes_mines_disjoint_witness:
  "reachable {|(0, 1), (1, 0), (1, 1)|}
     \<lparr>height = 3, width = 3, moves_made = {|(0, 0)|},
      mines = {|(1, 1), (1, 0), (0, 1)|}, safes = {|(0, 0)|}, knowledge = []\<rparr> \<and>
   safes \<lparr>height = 3, width = 3, moves_made = {|(0, 0)|},
      mines = {|(1, 1), (1, 0), (0, 1)|}, safes = {|(0, 0)|}, knowledge = []\<rparr> |\<inter>|
   mines \<lparr>height = 3, width = 3, moves_made = {|(0, 0)|},
      mines = {|(1, 1), (1, 0), (0, 1)|}, safes = {|(0, 0)|}, knowledge = []\<rparr> = {||}"
proof -
  let ?T = "{|(0, 1), (1, 0), (1, 1)|} :: cell fset"
  have c: "(0, 0) |\<notin>| ?T" by simp
  have nb: "get_neighbouring_cells (MinesweeperAI_init 3 3) (0, 0) = Inr {|(1, 1), (1, 0), (0, 1)|}"
    by (simp add: store_eval fset_eval)
  have "{|(1, 1), (1, 0), (0, 1)|} |\<inter>| ?T = {|(1, 1), (1, 0), (0, 1)|}" by auto
  then have n: "int (fcard ({|(1, 1), (1, 0), (0, 1)|} |\<inter>| ?T)) = 3"
    by (simp add: fset_eval)
  have run: "add_knowledge 1000 (MinesweeperAI_init 3 3) (0, 0)
               (int (fcard ({|(1, 1), (1, 0), (0, 1)|} |\<inter>| ?T))) =
             Inr \<lparr>height = 3, width = 3, moves_made = {|(0, 0)|},
                  mines = {|(1, 1), (1, 0), (0, 1)|}, safes = {|(0, 0)|}, knowledge = []\<rparr>"
    unfolding n by (rule add_knowledge_example_corner)
  have r: "reachable ?T
     \<lparr>height = 3, width = 3, moves_made = {|(0, 0)|},
      mines = {|(1, 1), (1, 0), (0, 1)|}, safes = {|(0, 0)|}, knowledge = []\<rparr>"
    by (rule reachable.observe [OF reachable.start c nb run])
  from reachable_safes_mines_disjoint [OF r] r show ?thesis by simp
qed

text \<open>
  Claim C1 as the specification states it fails: the public operations accept any cell and
  any count. After \<^verbatim>\<open>mark_mine\<close> and \<^verbatim>\<open>mark_safe\<close> for the same cell the cell is in
  both sets; and after the observation of (0, 0) with count 3 on a 3 by 3 board, which makes
  (0, 1) a known mine, the observation of (0, 1) puts it into \<^verbatim>\<open>safes\<close> as well.
\<close>

theorem safes_mines_overlap_counterexample:
  "mark_safe (mark_mine (MinesweeperAI_init 3 3) (0, 0)) (0, 0) =
     \<lparr>height = 3, width = 3, moves_made = {||}, mines = {|(0, 0)|},
        safes = {|(0, 0)|}, knowledge = []\<rparr> \<and>
   add_knowledge 1000 (MinesweeperAI_init 3 3) (0, 0) 3 =
     Inr \<lparr>height = 3, width = 3, moves_made = {|(0, 0)|},
          mines = {|(1, 1), (1, 0), (0, 1)|}, safes = {|(0, 0)|}, knowledge = []\<rparr> \<and>
   add_knowledge 1000
     \<lparr>height = 3, width = 3, moves_made = {|(0, 0)|},
      mines = {|(1, 1), (1, 0), (0, 1)|}, safes = {|(0, 0)|}, knowledge = []\<rparr> (0, 1) 0 =
     Inr \<lparr>height = 3, width = 3, moves_made = {|(0, 1), (0, 0)|},
          mines = {|(1, 1), (1, 0), (0, 1)|},
          safes = {|(0, 1), (0, 0), (1, 2), (1, 1), (1, 0), (0, 2)|}, knowledge = []\<rparr> \<and>
   ((0, 0)::cell) |\<in>| {|(0, 0)|} |\<inter>| {|(0, 0)|} \<and>
   ((0, 1)::cell) |\<in>| {|(0, 1), (0, 0), (1, 2), (1, 1), (1, 0), (0, 2)|} |\<inter>|
                      {|(1, 1), (1, 0), (0, 1)|}"
  by (simp add: store_eval fset_eval)

end
